theory Spec2Isabelle
  imports Main "HOL-Library.Char_ord" "HOL-Library.List_Lexorder"
begin

section \<open>Strings of the program\<close>

text \<open>
  The program is \<^verbatim>\<open>InitialAccess/parse_curl_domains.py\<close>. A Python \<^verbatim>\<open>str\<close> is modelled as a
  \<^typ>\<open>string\<close>, a list of 8-bit characters. The model covers ASCII text:
  \<^verbatim>\<open>str.lower()\<close> maps the letters A-Z, whitespace is the ASCII whitespace of
  \<^verbatim>\<open>str.isspace()\<close>, and any other character is left alone by both.
\<close>

definition ascii_uppercase :: string where
  "ascii_uppercase = ''ABCDEFGHIJKLMNOPQRSTUVWXYZ''"

definition ascii_lowercase :: string where
  "ascii_lowercase = ''abcdefghijklmnopqrstuvwxyz''"

definition digits :: string where
  "digits = ''0123456789''"

definition is_upper :: "char \<Rightarrow> bool" where
  "is_upper c = (c \<in> set ascii_uppercase)"

definition lower_char :: "char \<Rightarrow> char" where
  "lower_char c =
     (case map_of (zip ascii_uppercase ascii_lowercase) c of Some l \<Rightarrow> l | None \<Rightarrow> c)"

text \<open>\<^verbatim>\<open>s.lower()\<close>\<close>

definition py_lower :: "string \<Rightarrow> string" where
  "py_lower s = map lower_char s"

text \<open>
  \<^verbatim>\<open>c.isspace()\<close>, also the class \<^verbatim>\<open>\s\<close> of \<^verbatim>\<open>re\<close> on a \<^verbatim>\<open>str\<close> pattern: tab, line feed,
  vertical tab, form feed, carriage return, the separators 0x1c-0x1f and the space.
\<close>

definition is_space :: "char \<Rightarrow> bool" where
  "is_space c = (c \<in> {CHR 0x09, CHR 0x0A, CHR 0x0B, CHR 0x0C, CHR 0x0D,
                        CHR 0x1C, CHR 0x1D, CHR 0x1E, CHR 0x1F, CHR 0x20})"

text \<open>\<^verbatim>\<open>s.startswith(p)\<close>\<close>

definition py_startswith :: "string \<Rightarrow> string \<Rightarrow> bool" where
  "py_startswith s p = (take (length p) s = p)"

text \<open>
  \<^verbatim>\<open>s.split(sep, maxsplit)\<close> for a one-character separator: at most \<open>maxsplit\<close> cuts, made
  at the leftmost separators.
\<close>

fun py_split :: "char \<Rightarrow> nat \<Rightarrow> string \<Rightarrow> string list" where
  "py_split sep 0 s = [s]"
| "py_split sep (Suc n) s =
     (if sep \<in> set s
      then takeWhile (\<lambda>x. x \<noteq> sep) s # py_split sep n (tl (dropWhile (\<lambda>x. x \<noteq> sep) s))
      else [s])"

text \<open>\<^verbatim>\<open>s.split(sep)\<close> without a limit: a string has no more separators than characters.\<close>

definition py_split_all :: "char \<Rightarrow> string \<Rightarrow> string list" where
  "py_split_all sep s = py_split sep (length s) s"

text \<open>\<^verbatim>\<open>s.rsplit(sep, maxsplit)\<close>: the same cuts, made from the right.\<close>

definition py_rsplit :: "char \<Rightarrow> nat \<Rightarrow> string \<Rightarrow> string list" where
  "py_rsplit sep n s = rev (map rev (py_split sep n (rev s)))"

text \<open>\<^verbatim>\<open>s.strip(chars)\<close> removes every leading and every trailing character that is in \<open>chars\<close>.\<close>

definition py_strip :: "string \<Rightarrow> string \<Rightarrow> string" where
  "py_strip chars s =
     rev (dropWhile (\<lambda>x. x \<in> set chars) (rev (dropWhile (\<lambda>x. x \<in> set chars) s)))"

text \<open>\<^verbatim>\<open>s.strip()\<close> removes leading and trailing whitespace.\<close>

definition py_strip_ws :: "string \<Rightarrow> string" where
  "py_strip_ws s = rev (dropWhile is_space (rev (dropWhile is_space s)))"

text \<open>\<^verbatim>\<open>s.split()\<close> cuts at runs of whitespace and returns no empty piece.\<close>

function py_split_ws :: "string \<Rightarrow> string list" where
  "py_split_ws s =
     (let r = dropWhile is_space s
      in if r = [] then []
         else takeWhile (\<lambda>c. \<not> is_space c) r # py_split_ws (dropWhile (\<lambda>c. \<not> is_space c) r))"
  by pat_completeness auto
termination
proof (relation "measure length", simp, goal_cases)
  case (1 s r)
  then obtain c r' where r: "r = c # r'" and c: "\<not> is_space c"
    by (metis hd_dropWhile list.collapse)
  have "length (dropWhile (\<lambda>c. \<not> is_space c) r) \<le> length r'"
    using r c by (simp add: length_dropWhile_le)
  moreover have "length r \<le> length s"
    using 1 by (simp add: length_dropWhile_le)
  ultimately show ?case
    using r by simp
qed

declare py_split_ws.simps [simp del]

text \<open>
  \<^verbatim>\<open>xs[i]\<close>: a negative index counts from the end, and an index out of range raises
  \<^verbatim>\<open>IndexError\<close>, which is the value \<open>None\<close> here.
\<close>

definition py_index :: "'a list \<Rightarrow> int \<Rightarrow> 'a option" where
  "py_index xs i =
     (if 0 \<le> i \<and> i < int (length xs) then Some (xs ! nat i)
      else if i < 0 \<and> - i \<le> int (length xs) then Some (xs ! nat (int (length xs) + i))
      else None)"

section \<open>Host normalizer\<close>

text \<open>
  \<^verbatim>\<open>
  def normalize_host(netloc):
      if '@' in netloc:
          netloc = netloc.split('@',1)[1]
      netloc = netloc.strip('[]')
      netloc = netloc.split(':',1)[0]
      return netloc.lower()
  \<close>
  The result is \<open>None\<close> when one of the two index operations raises.
\<close>

definition normalize_host :: "string \<Rightarrow> string option" where
  "normalize_host netloc =
     Option.bind
       (if CHR ''@'' \<in> set netloc then py_index (py_split (CHR ''@'') 1 netloc) 1
        else Some netloc)
       (\<lambda>n1. Option.bind (py_index (py_split (CHR '':'') 1 (py_strip ''[]'' n1)) 0)
          (\<lambda>n3. Some (py_lower n3)))"

text \<open>
  The normalizer as the specification words it: drop everything up to and including the
  first \<open>@\<close>, strip one leading \<open>[\<close> and one trailing \<open>]\<close>, keep what is left of the first
  \<open>:\<close>, lowercase.
\<close>

definition drop_userinfo :: "string \<Rightarrow> string" where
  "drop_userinfo raw =
     (if CHR ''@'' \<in> set raw then tl (dropWhile (\<lambda>x. x \<noteq> CHR ''@'') raw) else raw)"

definition strip_one_bracket_pair :: "string \<Rightarrow> string" where
  "strip_one_bracket_pair s =
     (let s1 = (if s \<noteq> [] \<and> hd s = CHR ''['' then tl s else s)
      in if s1 \<noteq> [] \<and> last s1 = CHR '']'' then butlast s1 else s1)"

definition normalize_as_specified :: "string \<Rightarrow> string" where
  "normalize_as_specified raw =
     py_lower (takeWhile (\<lambda>x. x \<noteq> CHR '':'') (strip_one_bracket_pair (drop_userinfo raw)))"

text \<open>
  The same with the bracket step as the code has it: every leading and every trailing
  character that is \<open>[\<close> or \<open>]\<close> goes.
\<close>

definition is_bracket :: "char \<Rightarrow> bool" where
  "is_bracket c = (c = CHR ''['' \<or> c = CHR '']'')"

definition strip_brackets :: "string \<Rightarrow> string" where
  "strip_brackets s = rev (dropWhile is_bracket (rev (dropWhile is_bracket s)))"

definition norm :: "string \<Rightarrow> string" where
  "norm raw = py_lower (takeWhile (\<lambda>x. x \<noteq> CHR '':'') (strip_brackets (drop_userinfo raw)))"


section \<open>Regular expressions of the program\<close>

text \<open>
  \<^verbatim>\<open>DOMAIN_RE = re.compile(r'([A-Za-z0-9-]+(?:\.[A-Za-z0-9-]+)+)')\<close>.
  Both repetitions are greedy and nothing follows them in the pattern, so a match at a
  position is the longest run of label characters there, followed by as many groups
  "dot, non-empty run of label characters" as there are; it needs one group at least.
\<close>

definition is_label_char :: "char \<Rightarrow> bool" where
  "is_label_char c = (c \<in> set (ascii_uppercase @ ascii_lowercase @ digits @ ''-''))"

text \<open>The text matched by \<^verbatim>\<open>(?:\.[A-Za-z0-9-]+)*\<close> at the start of a string.\<close>

function dot_groups :: "string \<Rightarrow> string" where
  "dot_groups [] = []"
| "dot_groups (c # r) =
     (if c = CHR ''.'' \<and> takeWhile is_label_char r \<noteq> []
      then c # takeWhile is_label_char r @ dot_groups (dropWhile is_label_char r)
      else [])"
  by pat_completeness auto
termination
  by (relation "measure length") (auto simp: less_Suc_eq_le length_dropWhile_le)

text \<open>\<^verbatim>\<open>DOMAIN_RE.match(s)\<close>: the match anchored at the start of \<open>s\<close>.\<close>

definition DOMAIN_RE_match :: "string \<Rightarrow> string option" where
  "DOMAIN_RE_match s =
     (let l = takeWhile is_label_char s; g = dot_groups (dropWhile is_label_char s)
      in if l \<noteq> [] \<and> g \<noteq> [] then Some (l @ g) else None)"

text \<open>
  \<^verbatim>\<open>DOMAIN_RE.findall(s)\<close>: the matches from left to right, each search starting where the
  match before it ended. The pattern has one group, the whole match, so the strings
  returned are the matched texts.
\<close>

function DOMAIN_RE_findall :: "string \<Rightarrow> string list" where
  "DOMAIN_RE_findall [] = []"
| "DOMAIN_RE_findall (c # r) =
     (case DOMAIN_RE_match (c # r) of
        Some m \<Rightarrow> m # DOMAIN_RE_findall (drop (length m) (c # r))
      | None \<Rightarrow> DOMAIN_RE_findall r)"
  by pat_completeness auto
termination
  by (relation "measure length")
     (auto simp: DOMAIN_RE_match_def Let_def split: if_splits)

declare DOMAIN_RE_findall.simps [simp del]

text \<open>
  \<^verbatim>\<open>re.search(r'Host\s*:\s*([^;,\s"\']+)', hdr, re.IGNORECASE)\<close>. The value class
  excludes semicolon, comma, whitespace and both quotes.
\<close>

definition host_value_char :: "char \<Rightarrow> bool" where
  "host_value_char c = (c \<notin> {CHR '';'', CHR '','', CHR 0x22, CHR 0x27} \<and> \<not> is_space c)"

text \<open>The pattern anchored at the start of \<open>s\<close>; the result is group 1.\<close>

definition Host_RE_match :: "string \<Rightarrow> string option" where
  "Host_RE_match s =
     (if py_lower (take 4 s) = ''host''
      then (case dropWhile is_space (drop 4 s) of
              [] \<Rightarrow> None
            | c # r \<Rightarrow>
                if c = CHR '':''
                then (let v = takeWhile host_value_char (dropWhile is_space r)
                      in if v \<noteq> [] then Some v else None)
                else None)
      else None)"

text \<open>The search tries every start position from the left and keeps the first match.\<close>

fun Host_RE_search :: "string \<Rightarrow> string option" where
  "Host_RE_search [] = None"
| "Host_RE_search (c # r) =
     (case Host_RE_match (c # r) of Some v \<Rightarrow> Some v | None \<Rightarrow> Host_RE_search r)"

text \<open>
  \<^verbatim>\<open>re.split(r'\s*,\s*', val)\<close>. A separator starts at the first position from which
  whitespace runs up to a comma, and takes the whitespace after that comma too.
  \<open>comma_sep_len s\<close> is the length of a separator at the start of \<open>s\<close>.
\<close>

definition comma_sep_len :: "string \<Rightarrow> nat option" where
  "comma_sep_len s =
     (case dropWhile is_space s of
        [] \<Rightarrow> None
      | c # r \<Rightarrow>
          if c = CHR '',''
          then Some (length (takeWhile is_space s) + 1 + length (takeWhile is_space r))
          else None)"

function split_commas_from :: "string \<Rightarrow> string \<Rightarrow> string list" where
  "split_commas_from cur [] = [rev cur]"
| "split_commas_from cur (c # r) =
     (case comma_sep_len (c # r) of
        Some n \<Rightarrow> rev cur # split_commas_from [] (drop n (c # r))
      | None \<Rightarrow> split_commas_from (c # cur) r)"
  by pat_completeness auto
termination
  by (relation "measure (\<lambda>(cur, s). length s)")
     (auto simp: comma_sep_len_def split: list.splits if_splits)

declare split_commas_from.simps [simp del]

definition re_split_commas :: "string \<Rightarrow> string list" where
  "re_split_commas val = split_commas_from [] val"

section \<open>Domain extractor\<close>

text \<open>
  \<^verbatim>\<open>urlparse(t).netloc\<close> belongs to the Python library and is a parameter of the model: a
  function that returns the network location of a URL, or \<open>None\<close> where \<^verbatim>\<open>urlparse\<close> raises.
\<close>

type_synonym netloc_fn = "string \<Rightarrow> string option"

definition is_http_url :: "string \<Rightarrow> bool" where
  "is_http_url t = (py_startswith t ''http://'' \<or> py_startswith t ''https://'')"

text \<open>\<^verbatim>\<open>domains.add(normalize_host(raw))\<close>; \<open>None\<close> when the normalizer raises.\<close>

definition add_host :: "string \<Rightarrow> string set \<Rightarrow> string set option" where
  "add_host raw domains = map_option (\<lambda>h. insert h domains) (normalize_host raw)"

text \<open>\<^verbatim>\<open>for d in ds: domains.add(normalize_host(d))\<close>\<close>

fun add_hosts :: "string list \<Rightarrow> string set \<Rightarrow> string set option" where
  "add_hosts [] domains = Some domains"
| "add_hosts (d # ds) domains =
     (case add_host d domains of None \<Rightarrow> None | Some domains' \<Rightarrow> add_hosts ds domains')"

text \<open>
  Direct URLs (source lines 81-87). The \<^verbatim>\<open>try\<close> block swallows every exception, so a
  failure leaves the set as it was.
\<close>

definition direct_url :: "netloc_fn \<Rightarrow> string \<Rightarrow> string set \<Rightarrow> string set" where
  "direct_url urlparse_netloc t domains =
     (if is_http_url t
      then (case urlparse_netloc t of
              None \<Rightarrow> domains
            | Some n \<Rightarrow>
                if n \<noteq> []
                then (case add_host n domains of None \<Rightarrow> domains | Some domains' \<Rightarrow> domains')
                else domains)
      else domains)"

text \<open>
  URL-bearing flags (source lines 90-97). The increment of \<open>i\<close> stands after the inner
  \<^verbatim>\<open>if\<close>, at the level of the outer one.
\<close>

definition url_flag ::
  "netloc_fn \<Rightarrow> string list \<Rightarrow> string \<Rightarrow> nat \<times> string set \<Rightarrow> nat \<times> string set" where
  "url_flag urlparse_netloc tokens t st =
     (case st of (i, domains) \<Rightarrow>
        if t \<in> {''--url'', ''--url*'', ''-I'', ''--head''} \<and> i + 1 < length tokens
        then (let u = tokens ! (i + 1)
              in (i + 1,
                  if is_http_url u
                  then (case Option.bind (urlparse_netloc u) (\<lambda>n. add_host n domains) of
                          None \<Rightarrow> domains
                        | Some domains' \<Rightarrow> domains')
                  else domains))
        else (i, domains))"

text \<open>Headers (source lines 100-108).\<close>

definition header_flag ::
  "string list \<Rightarrow> string \<Rightarrow> nat \<times> string set \<Rightarrow> (nat \<times> string set) option" where
  "header_flag tokens t st =
     (case st of (i, domains) \<Rightarrow>
        if t \<in> {''-H'', ''--header''} \<and> i + 1 < length tokens
        then (let hdr = tokens ! (i + 1)
              in map_option (Pair (i + 1))
                   (case Host_RE_search hdr of
                      Some v \<Rightarrow> add_host v domains
                    | None \<Rightarrow> add_hosts (DOMAIN_RE_findall hdr) domains))
        else Some (i, domains))"

text \<open>
  \<^verbatim>\<open>
  for part in re.split(r'\s*,\s*', val):
      host = part.split(':',1)[0]
      if host:
          domains.add(normalize_host(host))
  \<close>
\<close>

fun add_parts :: "string list \<Rightarrow> string set \<Rightarrow> string set option" where
  "add_parts [] domains = Some domains"
| "add_parts (part # parts) domains =
     (case py_index (py_split (CHR '':'') 1 part) 0 of
        None \<Rightarrow> None
      | Some host \<Rightarrow>
          if host \<noteq> []
          then (case add_host host domains of
                  None \<Rightarrow> None
                | Some domains' \<Rightarrow> add_parts parts domains')
          else add_parts parts domains)"

text \<open>
  \<^verbatim>\<open>--resolve\<close> (source lines 111-117) and \<^verbatim>\<open>--connect-to\<close> (lines 120-126): the two blocks
  of the source differ in the flag only.
\<close>

definition host_list_flag ::
  "string \<Rightarrow> string list \<Rightarrow> string \<Rightarrow> nat \<times> string set \<Rightarrow> (nat \<times> string set) option" where
  "host_list_flag flag tokens t st =
     (case st of (i, domains) \<Rightarrow>
        if t = flag \<and> i + 1 < length tokens
        then map_option (Pair (i + 1)) (add_parts (re_split_commas (tokens ! (i + 1))) domains)
        else Some (i, domains))"

text \<open>
  One pass of the body of the \<^verbatim>\<open>while\<close> loop (source lines 78-132), from \<^verbatim>\<open>t = tokens[i]\<close>
  to the final \<^verbatim>\<open>i += 1\<close>: the index and the set after it, or \<open>None\<close> when an exception
  leaves the function.
\<close>

definition scan_token ::
  "netloc_fn \<Rightarrow> string list \<Rightarrow> nat \<Rightarrow> string set \<Rightarrow> (nat \<times> string set) option" where
  "scan_token urlparse_netloc tokens i domains =
     (let t = tokens ! i;
          st1 = (i, direct_url urlparse_netloc t domains);
          st2 = url_flag urlparse_netloc tokens t st1
      in Option.bind (header_flag tokens t st2) (\<lambda>st3.
         Option.bind (host_list_flag ''--resolve'' tokens t st3) (\<lambda>st4.
         Option.bind (host_list_flag ''--connect-to'' tokens t st4) (\<lambda>st5.
         Option.bind (add_hosts (DOMAIN_RE_findall t) (snd st5)) (\<lambda>domains'.
         Some (fst st5 + 1, domains'))))))"

function token_loop ::
  "netloc_fn \<Rightarrow> string list \<Rightarrow> nat \<Rightarrow> string set \<Rightarrow> string set option" where
  "token_loop urlparse_netloc tokens i domains =
     (if i < length tokens
      then (case scan_token urlparse_netloc tokens i domains of
              None \<Rightarrow> None
            | Some (i', domains') \<Rightarrow> token_loop urlparse_netloc tokens i' domains')
      else Some domains)"
  by pat_completeness auto
termination
proof (relation "measure (\<lambda>(nl, tokens, i, domains). length tokens - i)", simp, goal_cases)
  case (1 nl tokens i domains st i' domains')
  have "i < i'"
    using 1(2,3)
    by (auto simp: scan_token_def url_flag_def header_flag_def host_list_flag_def Let_def
        Option.bind_eq_Some_conv split: if_splits)
  with 1(1) show ?case
    by simp
qed

declare token_loop.simps [simp del]

definition token_extract_domains :: "netloc_fn \<Rightarrow> string list \<Rightarrow> string set option" where
  "token_extract_domains urlparse_netloc tokens = token_loop urlparse_netloc tokens 0 {}"

section \<open>TLD filter\<close>

text \<open>
  \<^verbatim>\<open>d.encode('utf-8').decode('idna')\<close> belongs to the Python library and is a parameter of
  the model: the decoded domain, or \<open>None\<close> where encoding or decoding raises.

  The body of the loop of \<^verbatim>\<open>filter_by_tlds\<close> (source lines 142-159) for one domain:
  \<open>Some True\<close> when it runs \<^verbatim>\<open>out.add(d)\<close>, \<open>Some False\<close> when it does not, \<open>None\<close> when
  an exception leaves the function. Everything inside the \<^verbatim>\<open>try\<close> block that raises
  ends in \<^verbatim>\<open>pass\<close>.
\<close>

definition keep_domain :: "(string \<Rightarrow> string option) \<Rightarrow> string set \<Rightarrow> string \<Rightarrow> bool option" where
  "keep_domain idna_decode tlds d =
     (if d = [] then Some False
      else Option.bind (py_index (py_rsplit (CHR ''.'') 2 d) (- 1)) (\<lambda>p.
        let lastl = py_lower p
        in if lastl \<in> tlds then Some True
           else if py_startswith lastl ''xn--''
           then (case idna_decode d of
                   None \<Rightarrow> Some False
                 | Some decoded \<Rightarrow>
                     (case py_index (py_rsplit (CHR ''.'') 1 decoded) (- 1) of
                        None \<Rightarrow> Some False
                      | Some l \<Rightarrow> Some (py_lower l \<in> tlds)))
           else Some False))"

text \<open>
  The loop visits every element of the set once and only ever adds the element it
  visits, so its result is the set of the elements for which the body adds.
\<close>

definition filter_by_tlds ::
  "(string \<Rightarrow> string option) \<Rightarrow> string set \<Rightarrow> string set \<Rightarrow> string set option" where
  "filter_by_tlds idna_decode domains tlds =
     (if \<exists>d\<in>domains. keep_domain idna_decode tlds d = None then None
      else Some {d \<in> domains. keep_domain idna_decode tlds d = Some True})"

section \<open>Pattern synthesizer\<close>

text \<open>
  \<^verbatim>\<open>
  parts = d.split('.')
  if len(parts) >= 2: labels.add(parts[-2])
  else: labels.add(parts[0])
  \<close>
\<close>

definition wildcard_label :: "string \<Rightarrow> string option" where
  "wildcard_label d =
     (let parts = py_split_all (CHR ''.'') d
      in if length parts \<ge> 2 then py_index parts (- 2) else py_index parts 0)"

text \<open>\<^verbatim>\<open>sorted(f"{lbl}.*" for lbl in labels)\<close>, strings ordered by their characters.\<close>

definition suggest_wildcards :: "string set \<Rightarrow> string list option" where
  "suggest_wildcards domains =
     (if \<exists>d\<in>domains. wildcard_label d = None then None
      else Some (sorted_list_of_set
                  ((\<lambda>lbl. lbl @ ''.*'') ` Option.these (wildcard_label ` domains))))"

text \<open>\<^verbatim>\<open>re.escape\<close> belongs to the Python library and is a parameter.\<close>

definition build_regex_for_label :: "(string \<Rightarrow> string) \<Rightarrow> string \<Rightarrow> string" where
  "build_regex_for_label re_escape label =
     ''(^|'' @ [CHR 0x5C] @ ''.)'' @ re_escape label @ [CHR 0x5C] @ ''.[A-Za-z0-9.-]+$''"

section \<open>Command line\<close>

text \<open>
  The parsed arguments, and what \<^verbatim>\<open>main\<close> reads from outside: standard input, the result
  of \<^verbatim>\<open>fetch_iana_tlds()\<close> (\<open>None\<close> when it raises), whether writing the file of
  \<^verbatim>\<open>--save-tlds\<close> succeeds, the lines of each file that exists, and the library functions
  \<^verbatim>\<open>shlex.split\<close> (\<open>None\<close> when it raises), \<^verbatim>\<open>urlparse\<close>, the \<^verbatim>\<open>idna\<close> codec and
  \<^verbatim>\<open>re.escape\<close>. Standard error is not modelled.
\<close>

record args =
  cmd :: "string option"
  tld_file :: "string option"
  fetch_tlds :: bool
  save_tlds :: "string option"
  wildcards :: bool
  regexes :: bool
  show_all :: bool

record world =
  stdin :: string
  iana_fetch :: "string set option"
  save_ok :: bool
  file_lines :: "string \<Rightarrow> string list option"
  shlex_split :: "string \<Rightarrow> string list option"
  urlparse_netloc :: netloc_fn
  idna_decode :: "string \<Rightarrow> string option"
  re_escape :: "string \<Rightarrow> string"

text \<open>The process ends with a status, after printing lines on standard output.\<close>

datatype outcome = Exit (status: int) (printed: "string list")

text \<open>Truth value of an optional string argument: \<^verbatim>\<open>None\<close> and \<^verbatim>\<open>""\<close> are false.\<close>

definition truthy :: "string option \<Rightarrow> bool" where
  "truthy x = (case x of None \<Rightarrow> False | Some s \<Rightarrow> s \<noteq> [])"

text \<open>
  \<^verbatim>\<open>
  if args.cmd: curl_cmd = args.cmd
  else: curl_cmd = sys.stdin.read().strip()
  \<close>
\<close>

definition read_command :: "args \<Rightarrow> world \<Rightarrow> string" where
  "read_command a w = (if truthy (cmd a) then the (cmd a) else py_strip_ws (stdin w))"

text \<open>\<^verbatim>\<open>load_tlds_from_file\<close>, on the lines of the file.\<close>

definition load_tlds_from_file :: "string list \<Rightarrow> string set" where
  "load_tlds_from_file lines =
     set (filter (\<lambda>s. s \<noteq> [] \<and> \<not> py_startswith s ''#'')
            (map (\<lambda>line. py_lower (py_strip_ws line)) lines))"

text \<open>The part of \<^verbatim>\<open>main\<close> that builds the TLD set (source lines 206-231); \<open>None\<close> is \<^verbatim>\<open>sys.exit(1)\<close>.\<close>

definition load_tlds :: "args \<Rightarrow> world \<Rightarrow> string set option" where
  "load_tlds a w =
     Option.bind
       (if fetch_tlds a
        then (case iana_fetch w of
                None \<Rightarrow> if truthy (tld_file a) then Some {} else None
              | Some fetched \<Rightarrow>
                  if truthy (save_tlds a) \<and> \<not> save_ok w \<and> \<not> truthy (tld_file a) then None
                  else Some fetched)
        else Some {})
       (\<lambda>tlds1. Option.bind
          (if truthy (tld_file a)
           then (case file_lines w (the (tld_file a)) of
                   None \<Rightarrow> None
                 | Some ls \<Rightarrow> Some (tlds1 \<union> load_tlds_from_file ls))
           else Some tlds1)
          (\<lambda>tlds2. if tlds2 = {} then None else Some tlds2))"

definition domains_block :: "string set \<Rightarrow> string list" where
  "domains_block filtered =
     ''# Matched domains (TLD filtered):'' #
     (if filtered \<noteq> {} then sorted_list_of_set filtered else [''# (none)''])"

text \<open>\<^verbatim>\<open>sorted({d.split('.')[-2] for d in filtered if '.' in d})\<close>\<close>

definition regex_labels :: "string set \<Rightarrow> string list option" where
  "regex_labels filtered =
     (let dotted = {d \<in> filtered. CHR ''.'' \<in> set d};
          labels = (\<lambda>d. py_index (py_split_all (CHR ''.'') d) (- 2)) ` dotted
      in if None \<in> labels then None else Some (sorted_list_of_set (Option.these labels)))"

text \<open>
  The output part of \<^verbatim>\<open>main\<close> (source lines 242-258). An exception that is not caught
  ends the process with status 1 after what was printed before it.
\<close>

definition report :: "args \<Rightarrow> world \<Rightarrow> string set \<Rightarrow> outcome" where
  "report a w filtered =
     (let out1 = (if show_all a \<or> \<not> (wildcards a \<or> regexes a) then domains_block filtered
                  else []);
          head2 = (if wildcards a then [[], ''# Suggested wildcard patterns (label.*):''] else []);
          head3 = (if regexes a then [[], ''# Per-label regex patterns:''] else [])
      in case (if wildcards a then suggest_wildcards filtered else Some []) of
           None \<Rightarrow> Exit 1 (out1 @ head2)
         | Some ws \<Rightarrow>
             (case (if regexes a then regex_labels filtered else Some []) of
                None \<Rightarrow> Exit 1 (out1 @ head2 @ ws @ head3)
              | Some ls \<Rightarrow>
                  Exit 0 (out1 @ head2 @ ws @ head3 @
                          map (build_regex_for_label (re_escape w)) ls)))"

text \<open>
  \<^verbatim>\<open>main\<close>. The tokens come from \<^verbatim>\<open>shlex.split\<close>, and from \<^verbatim>\<open>curl_cmd.split()\<close> when that
  raises.
\<close>

definition main :: "args \<Rightarrow> world \<Rightarrow> outcome" where
  "main a w =
     (let curl_cmd = read_command a w
      in if curl_cmd = []
         then Exit 1 [''Provide a curl command via --cmd or stdin. See --help.'']
         else (case load_tlds a w of
                 None \<Rightarrow> Exit 1 []
               | Some tlds \<Rightarrow>
                   (let tokens = (case shlex_split w curl_cmd of
                                    Some ts \<Rightarrow> ts
                                  | None \<Rightarrow> py_split_ws curl_cmd)
                    in case token_extract_domains (urlparse_netloc w) tokens of
                         None \<Rightarrow> Exit 1 []
                       | Some found \<Rightarrow>
                           (case filter_by_tlds (idna_decode w) found tlds of
                              None \<Rightarrow> Exit 1 []
                            | Some filtered \<Rightarrow> report a w filtered))))"

section \<open>Descriptions used in the statements\<close>

text \<open>
  The definitions of this section are not translations of source functions. They say,
  in terms of lists and sets, what the statements below compare the code with.
\<close>

text \<open>The hosts a direct URL token contributes, and those of the generic substring scan.\<close>

definition direct_hosts :: "netloc_fn \<Rightarrow> string \<Rightarrow> string set" where
  "direct_hosts nl t =
     (if is_http_url t
      then (case nl t of None \<Rightarrow> {} | Some n \<Rightarrow> if n \<noteq> [] then {norm n} else {})
      else {})"

definition generic_hosts :: "string \<Rightarrow> string set" where
  "generic_hosts t = norm ` set (DOMAIN_RE_findall t)"

text \<open>The hosts the value token of a flag contributes, by the kind of the flag.\<close>

definition url_value_hosts :: "netloc_fn \<Rightarrow> string \<Rightarrow> string set" where
  "url_value_hosts nl u =
     (if is_http_url u then (case nl u of None \<Rightarrow> {} | Some n \<Rightarrow> {norm n}) else {})"

definition header_value_hosts :: "string \<Rightarrow> string set" where
  "header_value_hosts hdr =
     (case Host_RE_search hdr of
        Some v \<Rightarrow> {norm v}
      | None \<Rightarrow> norm ` set (DOMAIN_RE_findall hdr))"

definition host_list_value_hosts :: "string \<Rightarrow> string set" where
  "host_list_value_hosts val =
     norm ` {h \<in> takeWhile (\<lambda>x. x \<noteq> CHR '':'') ` set (re_split_commas val). h \<noteq> []}"

definition url_flags :: "string set" where
  "url_flags = {''--url'', ''--url*'', ''-I'', ''--head''}"

definition header_flags :: "string set" where
  "header_flags = {''-H'', ''--header''}"

definition host_list_flags :: "string set" where
  "host_list_flags = {''--resolve'', ''--connect-to''}"

definition value_hosts :: "netloc_fn \<Rightarrow> string \<Rightarrow> string \<Rightarrow> string set" where
  "value_hosts nl t v =
     (if t \<in> url_flags then url_value_hosts nl v
      else if t \<in> header_flags then header_value_hosts v
      else if t \<in> host_list_flags then host_list_value_hosts v
      else {})"

text \<open>
  The scan as a recursion over the tokens: a flag followed by a token takes that token
  as its value, and the scan goes on behind the value.
\<close>

fun scan_hosts :: "netloc_fn \<Rightarrow> string list \<Rightarrow> string set" where
  "scan_hosts nl [] = {}"
| "scan_hosts nl [t] = direct_hosts nl t \<union> generic_hosts t"
| "scan_hosts nl (t # v # rest) =
     direct_hosts nl t \<union> generic_hosts t \<union>
     (if t \<in> url_flags \<union> header_flags \<union> host_list_flags
      then value_hosts nl t v \<union> scan_hosts nl rest
      else scan_hosts nl (v # rest))"


text \<open>The last label of a domain, and the label before it.\<close>

definition last_label :: "string \<Rightarrow> string" where
  "last_label d = rev (takeWhile (\<lambda>x. x \<noteq> CHR ''.'') (rev d))"

definition second_last_label :: "string \<Rightarrow> string" where
  "second_last_label d =
     rev (takeWhile (\<lambda>x. x \<noteq> CHR ''.'') (tl (dropWhile (\<lambda>x. x \<noteq> CHR ''.'') (rev d))))"

text \<open>The same for any separator: what stands between the last two separators.\<close>

definition before_last_sep :: "char \<Rightarrow> string \<Rightarrow> string" where
  "before_last_sep sep s =
     rev (takeWhile (\<lambda>x. x \<noteq> sep) (tl (dropWhile (\<lambda>x. x \<noteq> sep) (rev s))))"

text \<open>
  Library functions for the concrete inputs of the examples. \<open>netloc_between_slashes\<close>
  takes what stands between \<^verbatim>\<open>//\<close> and the next \<^verbatim>\<open>/\<close>, \<^verbatim>\<open>?\<close> or \<^verbatim>\<open>#\<close>, as \<^verbatim>\<open>urlparse\<close> does on
  the URLs of the examples; \<open>idna_of_examples\<close> decodes the one punycode domain of the
  examples (the decoded label is written in UTF-8) and fails elsewhere;
  \<open>shlex_unquoted\<close> is \<^verbatim>\<open>shlex.split\<close> on commands without quotes or backslashes.
\<close>

definition netloc_between_slashes :: netloc_fn where
  "netloc_between_slashes u =
     Some (takeWhile (\<lambda>c. c \<notin> {CHR ''/'', CHR ''?'', CHR ''#''})
             (drop 2 (tl (dropWhile (\<lambda>c. c \<noteq> CHR '':'') u))))"

definition idna_of_examples :: "string \<Rightarrow> string option" where
  "idna_of_examples d =
     (if d = ''example.xn--p1ai''
      then Some (''example.'' @ [CHR 0xD1, CHR 0x80, CHR 0xD1, CHR 0x84])
      else None)"

definition shlex_unquoted :: "string \<Rightarrow> string list option" where
  "shlex_unquoted s = Some (py_split_ws s)"


text \<open>The label a domain contributes to the wildcard suggestions.\<close>

definition registrable_label :: "string \<Rightarrow> string" where
  "registrable_label d = (if CHR ''.'' \<in> set d then second_last_label d else d)"

text \<open>
  A run for the examples: a TLD file \<^verbatim>\<open>tlds.txt\<close> with the lines \<^verbatim>\<open>com\<close> and \<^verbatim>\<open>org\<close>, no
  network, and \<^verbatim>\<open>re.escape\<close> as it is on labels of letters and digits.
\<close>

definition example_files :: "string \<Rightarrow> string list option" where
  "example_files path = (if path = ''tlds.txt'' then Some [''com'', ''org''] else None)"

definition re_escape_alnum :: "string \<Rightarrow> string" where
  "re_escape_alnum label = label"

definition example_world :: "string \<Rightarrow> world" where
  "example_world input =
     \<lparr>stdin = input, iana_fetch = None, save_ok = True, file_lines = example_files,
      shlex_split = shlex_unquoted, urlparse_netloc = netloc_between_slashes,
      idna_decode = idna_of_examples, re_escape = re_escape_alnum\<rparr>"

definition example_args :: "string option \<Rightarrow> args" where
  "example_args c =
     \<lparr>cmd = c, tld_file = Some ''tlds.txt'', fetch_tlds = False, save_tlds = None,
      wildcards = False, regexes = False, show_all = False\<rparr>"

section \<open>Properties of the host normalizer\<close>

lemma lower_char_not_upper: "\<not> is_upper (lower_char c)"
  by (simp add: lower_char_def is_upper_def ascii_uppercase_def ascii_lowercase_def)

lemma lower_char_fixed: "\<not> is_upper c \<Longrightarrow> lower_char c = c"
  by (simp add: lower_char_def is_upper_def ascii_uppercase_def ascii_lowercase_def)

lemma takeWhile_absent: "sep \<notin> set s \<Longrightarrow> takeWhile (\<lambda>x. x \<noteq> sep) s = s"
  by (induction s) auto

lemma py_split_one_first:
  "py_index (py_split sep (Suc 0) s) 0 = Some (takeWhile (\<lambda>x. x \<noteq> sep) s)"
  by (simp add: py_index_def takeWhile_absent)

lemma py_split_one_second:
  "sep \<in> set s \<Longrightarrow>
   py_index (py_split sep (Suc 0) s) 1 = Some (tl (dropWhile (\<lambda>x. x \<noteq> sep) s))"
  by (simp add: py_index_def)

lemma py_strip_brackets: "py_strip ''[]'' s = strip_brackets s"
proof -
  have "(\<lambda>x. x \<in> set ''[]'') = is_bracket"
    by (auto simp: is_bracket_def)
  then show ?thesis
    by (simp add: py_strip_def strip_brackets_def)
qed

lemma normalize_host_norm: "normalize_host raw = Some (norm raw)"
  by (simp add: normalize_host_def norm_def drop_userinfo_def py_split_one_first
      py_split_one_second py_strip_brackets del: py_split.simps)

lemma lower_char_colon: "lower_char c = CHR '':'' \<longleftrightarrow> c = CHR '':''"
  by (simp add: lower_char_def ascii_uppercase_def ascii_lowercase_def)

lemma lower_char_bracket: "is_bracket (lower_char c) = is_bracket c"
  by (simp add: is_bracket_def lower_char_def ascii_uppercase_def ascii_lowercase_def)

lemma py_lower_fixed: "\<forall>c\<in>set s. \<not> is_upper c \<Longrightarrow> py_lower s = s"
  by (simp add: py_lower_def lower_char_fixed map_idI)

lemma norm_no_colon: "CHR '':'' \<notin> set (norm raw)"
proof
  assume "CHR '':'' \<in> set (norm raw)"
  then obtain c where c: "c \<in> set (takeWhile (\<lambda>x. x \<noteq> CHR '':'') (strip_brackets (drop_userinfo raw)))"
    and "lower_char c = CHR '':''"
    by (auto simp: norm_def py_lower_def)
  then have "c = CHR '':''"
    by (simp add: lower_char_colon)
  with c show False
    by (auto dest: set_takeWhileD)
qed

lemma norm_no_upper: "c \<in> set (norm raw) \<Longrightarrow> \<not> is_upper c"
  by (auto simp: norm_def py_lower_def lower_char_not_upper)

lemma strip_brackets_hd: "strip_brackets s \<noteq> [] \<Longrightarrow> \<not> is_bracket (hd (strip_brackets s))"
proof -
  assume ne: "strip_brackets s \<noteq> []"
  define w where "w = dropWhile is_bracket s"
  have sb: "strip_brackets s = rev (dropWhile is_bracket (rev w))"
    by (simp add: strip_brackets_def w_def)
  with ne have "w \<noteq> []"
    by auto
  then obtain a w' where w: "w = a # w'"
    by (cases w) auto
  have a: "\<not> is_bracket a"
    using w hd_dropWhile [of is_bracket s] by (simp add: w_def)
  have "\<exists>u. dropWhile is_bracket (rev w' @ [a]) = u @ [a]"
    using a by (cases "\<forall>x\<in>set (rev w'). is_bracket x") (auto simp: dropWhile_append)
  then obtain u where "dropWhile is_bracket (rev w) = u @ [a]"
    using w by auto
  then show ?thesis
    using sb a by simp
qed

lemma norm_hd: "norm raw \<noteq> [] \<Longrightarrow> \<not> is_bracket (hd (norm raw))"
proof -
  assume ne: "norm raw \<noteq> []"
  define z where "z = strip_brackets (drop_userinfo raw)"
  have n: "norm raw = map lower_char (takeWhile (\<lambda>x. x \<noteq> CHR '':'') z)"
    by (simp add: norm_def py_lower_def z_def)
  with ne have t: "takeWhile (\<lambda>x. x \<noteq> CHR '':'') z \<noteq> []"
    by simp
  then have "z \<noteq> []"
    by auto
  then have "\<not> is_bracket (hd z)"
    unfolding z_def by (rule strip_brackets_hd)
  moreover have "hd (takeWhile (\<lambda>x. x \<noteq> CHR '':'') z) = hd z"
    using t by (cases z) (auto split: if_splits)
  ultimately show ?thesis
    using t by (simp add: n hd_map lower_char_bracket)
qed

lemma strip_brackets_length: "length (strip_brackets s) \<le> length s"
  unfolding strip_brackets_def
  by (metis length_rev length_dropWhile_le le_trans)

lemma norm_length: "length (norm s) \<le> length (drop_userinfo s)"
  unfolding norm_def py_lower_def
  by (metis length_map length_takeWhile_le strip_brackets_length le_trans)

lemma drop_userinfo_length: "CHR ''@'' \<in> set s \<Longrightarrow> length (drop_userinfo s) < length s"
proof -
  assume a: "CHR ''@'' \<in> set s"
  then have "dropWhile (\<lambda>x. x \<noteq> CHR ''@'') s \<noteq> []"
    by simp
  then have "length (tl (dropWhile (\<lambda>x. x \<noteq> CHR ''@'') s)) < length (dropWhile (\<lambda>x. x \<noteq> CHR ''@'') s)"
    by simp
  also have "\<dots> \<le> length s"
    by (rule length_dropWhile_le)
  finally show ?thesis
    using a by (simp add: drop_userinfo_def)
qed

lemma dropWhile_length_less:
  "xs \<noteq> [] \<Longrightarrow> P (hd xs) \<Longrightarrow> length (dropWhile P xs) < length xs"
  by (cases xs) (auto simp: less_Suc_eq_le length_dropWhile_le)

lemma strip_brackets_fixed:
  assumes "s \<noteq> []" "\<not> is_bracket (hd s)" "\<not> is_bracket (last s)"
  shows "strip_brackets s = s"
proof -
  have "dropWhile is_bracket s = s"
    using assms by (cases s) auto
  moreover have "dropWhile is_bracket (rev s) = rev s"
    using assms by (simp add: dropWhile_eq_self_iff hd_rev)
  ultimately show ?thesis
    by (simp add: strip_brackets_def)
qed

lemma strip_brackets_shorter:
  assumes "s \<noteq> []" "is_bracket (last s)"
  shows "length (strip_brackets s) < length s"
proof -
  define w where "w = dropWhile is_bracket s"
  have sb: "strip_brackets s = rev (dropWhile is_bracket (rev w))"
    by (simp add: strip_brackets_def w_def)
  show ?thesis
  proof (cases "w = []")
    case True
    then show ?thesis
      using assms by (simp add: sb)
  next
    case False
    then have "last w = last s"
      unfolding w_def by (metis append_Nil2 last_appendR takeWhile_dropWhile_id)
    then have "length (dropWhile is_bracket (rev w)) < length (rev w)"
      using False assms by (intro dropWhile_length_less) (simp_all add: hd_rev)
    moreover have "length w \<le> length s"
      by (simp add: w_def length_dropWhile_le)
    ultimately show ?thesis
      by (simp add: sb)
  qed
qed

lemma norm_fixed_iff:
  assumes y: "y = norm x"
  shows "norm y = y \<longleftrightarrow> CHR ''@'' \<notin> set y \<and> (y = [] \<or> \<not> is_bracket (last y))"
proof (cases "CHR ''@'' \<in> set y")
  case True
  then have "length (norm y) < length y"
    using norm_length [of y] drop_userinfo_length [of y] by simp
  then show ?thesis
    using True by auto
next
  case False
  then have du: "drop_userinfo y = y"
    by (simp add: drop_userinfo_def)
  show ?thesis
  proof (cases "y = []")
    case True
    then show ?thesis
      by (simp add: norm_def drop_userinfo_def strip_brackets_def py_lower_def)
  next
    case ne: False
    have hd: "\<not> is_bracket (hd y)"
      using ne norm_hd [of x] y by simp
    have nc: "CHR '':'' \<notin> set y" and nu: "\<forall>c\<in>set y. \<not> is_upper c"
      using y norm_no_colon norm_no_upper by auto
    show ?thesis
    proof (cases "is_bracket (last y)")
      case True
      then have "length (strip_brackets y) < length y"
        using ne by (intro strip_brackets_shorter)
      then have "length (norm y) < length y"
        unfolding norm_def py_lower_def du
        by (metis length_map length_takeWhile_le le_less_trans)
      then show ?thesis
        using True False ne by auto
    next
      case nb: False
      then have "strip_brackets y = y"
        using strip_brackets_fixed [OF ne hd] by simp
      then have "norm y = y"
        using nc nu by (simp add: norm_def du takeWhile_absent py_lower_fixed)
      then show ?thesis
        using nb False by simp
    qed
  qed
qed

text \<open>
  Claim C7, as amended. For every input string, \<^verbatim>\<open>normalize_host\<close> returns a string and never
  fails, and that string is computed by: discarding everything up to and including the
  first \<open>@\<close> when the input contains one; then stripping every leading and every trailing
  character that is \<open>[\<close> or \<open>]\<close>; then keeping only the part left of the first \<open>:\<close>; then
  lowercasing.
\<close>

theorem C7_normalize_host_steps:
  "normalize_host raw =
     Some (py_lower (takeWhile (\<lambda>x. x \<noteq> CHR '':'') (strip_brackets (drop_userinfo raw))))"
  using normalize_host_norm [of raw] by (simp add: norm_def)

theorem C7_normalize_host_steps_witness:
  "normalize_host ''bob@[Example.COM]:8080'' = Some ''example.com]''"
  using C7_normalize_host_steps [of "''bob@[Example.COM]:8080''"]
  by (simp add: drop_userinfo_def strip_brackets_def is_bracket_def py_lower_def lower_char_def
      ascii_uppercase_def ascii_lowercase_def)

text \<open>
  Claim C7 as the specification words it, with one leading \<open>[\<close> and one trailing \<open>]\<close>
  stripped, fails where brackets repeat or stand the other way round: the code strips
  them all.
\<close>

theorem C7_single_bracket_counterexample:
  "normalize_host ''[[a]]'' = Some ''a'' \<and> normalize_as_specified ''[[a]]'' = ''[a]''"
  by code_simp

text \<open>
  Claim C3, as amended. Normalizing a normalized host again gives the same string exactly
  when the normalized host contains no \<open>@\<close> and does not end with \<open>[\<close> or \<open>]\<close>.
\<close>

theorem C3_normalize_twice:
  "normalize_host x = Some y \<Longrightarrow>
   (normalize_host y = Some y) = (CHR ''@'' \<notin> set y \<and> (y = [] \<or> \<not> is_bracket (last y)))"
  using norm_fixed_iff [of y x] by (simp add: normalize_host_norm)

theorem C3_normalize_twice_witness:
  "normalize_host ''Example.COM:80'' = Some ''example.com'' \<and>
   normalize_host ''example.com'' = Some ''example.com''"
proof -
  have h: "normalize_host ''Example.COM:80'' = Some ''example.com''"
    by code_simp
  show ?thesis
    using h C3_normalize_twice [OF h] by (simp add: is_bracket_def)
qed

text \<open>
  Claim C3 as stated, idempotence for every host string, fails: after the first \<open>@\<close> is
  cut off a second one may remain, and a bracket before a port survives as a trailing
  bracket.
\<close>

theorem C3_idempotence_counterexample:
  "normalize_host ''a@b@c'' = Some ''b@c'' \<and> normalize_host ''b@c'' = Some ''c'' \<and>
   normalize_host ''[a]:80'' = Some ''a]'' \<and> normalize_host ''a]'' = Some ''a''"
  by code_simp

section \<open>Properties of the TLD filter\<close>

lemma py_index_last: "xs \<noteq> [] \<Longrightarrow> py_index xs (- 1) = Some (last xs)"
  by (cases xs rule: rev_cases) (auto simp: py_index_def nth_append)

lemma py_split_hd:
  "hd (py_split sep (Suc n) s) = takeWhile (\<lambda>x. x \<noteq> sep) s \<and> py_split sep (Suc n) s \<noteq> []"
  by (simp add: takeWhile_absent)

lemma py_rsplit_last:
  "py_index (py_rsplit sep (Suc n) s) (- 1) = Some (rev (takeWhile (\<lambda>x. x \<noteq> sep) (rev s)))"
proof -
  obtain p ps where ps: "py_split sep (Suc n) (rev s) = p # ps"
    using py_split_hd [of sep n "rev s"] by (cases "py_split sep (Suc n) (rev s)") auto
  then have "p = takeWhile (\<lambda>x. x \<noteq> sep) (rev s)"
    using py_split_hd [of sep n "rev s"] by simp
  then show ?thesis
    unfolding py_rsplit_def ps by (simp add: py_index_last)
qed

lemma keep_domain_eq:
  "keep_domain idna tlds d =
     Some (d \<noteq> [] \<and>
           (py_lower (last_label d) \<in> tlds \<or>
            py_startswith (py_lower (last_label d)) ''xn--'' \<and>
            (case idna d of None \<Rightarrow> False | Some u \<Rightarrow> py_lower (last_label u) \<in> tlds)))"
proof -
  have 2: "py_index (py_rsplit (CHR ''.'') 2 d) (- 1) = Some (last_label d)" for d
    using py_rsplit_last [of "CHR ''.''" 1 d] by (simp add: last_label_def numeral_2_eq_2)
  have 1: "py_index (py_rsplit (CHR ''.'') 1 d) (- 1) = Some (last_label d)" for d
    using py_rsplit_last [of "CHR ''.''" 0 d] by (simp add: last_label_def)
  show ?thesis
    unfolding keep_domain_def 2 1
    by (simp add: Let_def split: option.splits)
qed

lemma filter_by_tlds_eq:
  "filter_by_tlds idna domains tlds =
     Some {d \<in> domains. d \<noteq> [] \<and>
           (py_lower (last_label d) \<in> tlds \<or>
            py_startswith (py_lower (last_label d)) ''xn--'' \<and>
            (case idna d of None \<Rightarrow> False | Some u \<Rightarrow> py_lower (last_label u) \<in> tlds))}"
  by (simp add: filter_by_tlds_def keep_domain_eq)

lemma last_label_no_dot: "CHR ''.'' \<notin> set d \<Longrightarrow> last_label d = d"
  by (simp add: last_label_def takeWhile_absent)




text \<open>
  Claim C8, as amended. A candidate domain without a dot goes through the same test as
  any other, with the whole string as its last label: it is in the filtered set exactly
  when it is a candidate, is not empty, and either its lowercase form is in the TLD set
  or it passes the punycode fallback. So it is excluded whenever its lowercase form is
  neither in the TLD set nor starts with \<^verbatim>\<open>xn--\<close>.
\<close>

theorem C8_dotless_domain:
  assumes "CHR ''.'' \<notin> set d" and "filter_by_tlds idna domains tlds = Some out"
  shows "d \<in> out \<longleftrightarrow>
           d \<in> domains \<and> d \<noteq> [] \<and>
           (py_lower d \<in> tlds \<or>
            py_startswith (py_lower d) ''xn--'' \<and>
            (\<exists>u. idna d = Some u \<and> py_lower (last_label u) \<in> tlds))"
  using assms by (auto simp: filter_by_tlds_eq last_label_no_dot split: option.splits)

theorem C8_dotless_domain_witness:
  "CHR ''.'' \<notin> set ''localhost'' \<and>
   filter_by_tlds idna_of_examples {''localhost'', ''example.com''} {''com''} = Some {''example.com''} \<and>
   ''localhost'' \<notin> {''example.com''} \<and> py_lower ''localhost'' \<notin> {''com''}"
proof -
  have h: "CHR ''.'' \<notin> set ''localhost''"
    "filter_by_tlds idna_of_examples {''localhost'', ''example.com''} {''com''} = Some {''example.com''}"
    by code_simp+
  have x: "\<not> py_startswith (py_lower ''localhost'') ''xn--''"
    by code_simp
  have "py_lower ''localhost'' \<notin> {''com''}"
    using C8_dotless_domain [OF h] x by simp
  with h show ?thesis
    by simp
qed

text \<open>
  Claim C8 as stated, for every TLD set, fails for a candidate that is itself a TLD.
\<close>

theorem C8_dotless_tld_counterexample:
  "CHR ''.'' \<notin> set ''com'' \<and> filter_by_tlds idna_of_examples {''com''} {''com''} = Some {''com''}"
  by code_simp

section \<open>Properties of the domain extractor\<close>

lemma add_host_eq: "add_host raw D = Some (insert (norm raw) D)"
  by (simp add: add_host_def normalize_host_norm)

lemma add_hosts_eq: "add_hosts ds D = Some (D \<union> norm ` set ds)"
  by (induction ds arbitrary: D) (auto simp: add_host_eq)

lemma add_parts_eq:
  "add_parts parts D =
     Some (D \<union> norm ` {h \<in> takeWhile (\<lambda>x. x \<noteq> CHR '':'') ` set parts. h \<noteq> []})"
proof (induction parts arbitrary: D)
  case Nil
  show ?case by simp
next
  case (Cons part parts)
  show ?case
    by (auto simp: Cons.IH add_host_eq py_split_one_first simp del: py_split.simps)
qed

lemma generic_of_flag:
  "t \<in> url_flags \<union> header_flags \<union> host_list_flags \<Longrightarrow> DOMAIN_RE_findall t = []"
  by (auto simp: url_flags_def header_flags_def host_list_flags_def) code_simp+

lemma direct_of_flag:
  "t \<in> url_flags \<union> header_flags \<union> host_list_flags \<Longrightarrow> \<not> is_http_url t"
  by (auto simp: url_flags_def header_flags_def host_list_flags_def is_http_url_def py_startswith_def)

lemma url_flag_fires:
  "t \<in> url_flags \<Longrightarrow> i + 1 < length tokens \<Longrightarrow>
   url_flag nl tokens t (i, D) = (i + 1, D \<union> url_value_hosts nl (tokens ! (i + 1)))"
  by (simp add: url_flag_def url_flags_def url_value_hosts_def add_host_eq Let_def
      split: option.splits)

lemma url_flag_idle:
  "t \<notin> url_flags \<or> \<not> i + 1 < length tokens \<Longrightarrow> url_flag nl tokens t (i, D) = (i, D)"
  by (auto simp: url_flag_def url_flags_def)

lemma header_flag_fires:
  "t \<in> header_flags \<Longrightarrow> i + 1 < length tokens \<Longrightarrow>
   header_flag tokens t (i, D) = Some (i + 1, D \<union> header_value_hosts (tokens ! (i + 1)))"
  by (simp add: header_flag_def header_flags_def header_value_hosts_def add_host_eq
      add_hosts_eq Let_def split: option.splits)

lemma header_flag_idle:
  "t \<notin> header_flags \<or> \<not> i + 1 < length tokens \<Longrightarrow> header_flag tokens t (i, D) = Some (i, D)"
  by (auto simp: header_flag_def header_flags_def)

lemma host_list_flag_fires:
  "i + 1 < length tokens \<Longrightarrow>
   host_list_flag flag tokens flag (i, D) =
     Some (i + 1, D \<union> host_list_value_hosts (tokens ! (i + 1)))"
  by (simp add: host_list_flag_def host_list_value_hosts_def add_parts_eq)

lemma host_list_flag_idle:
  "t \<noteq> flag \<or> \<not> i + 1 < length tokens \<Longrightarrow> host_list_flag flag tokens t (i, D) = Some (i, D)"
  by (auto simp: host_list_flag_def)

lemma flags_disjoint:
  "t \<in> url_flags \<Longrightarrow> t \<notin> header_flags \<and> t \<noteq> ''--resolve'' \<and> t \<noteq> ''--connect-to''"
  "t \<in> header_flags \<Longrightarrow> t \<notin> url_flags \<and> t \<noteq> ''--resolve'' \<and> t \<noteq> ''--connect-to''"
  "t \<in> host_list_flags \<Longrightarrow> t \<notin> url_flags \<and> t \<notin> header_flags"
  by (auto simp: url_flags_def header_flags_def host_list_flags_def)

lemma direct_url_eq: "direct_url nl t D = D \<union> direct_hosts nl t"
  by (auto simp: direct_url_def direct_hosts_def add_host_eq split: option.splits)

lemma direct_url_flag:
  "t \<in> url_flags \<union> header_flags \<union> host_list_flags \<Longrightarrow> direct_url nl t D = D"
  using direct_of_flag [of t] by (simp add: direct_url_def)

lemma scan_token_url_flag:
  assumes "t \<in> url_flags" "i + 1 < length tokens" "tokens ! i = t"
  shows "scan_token nl tokens i D = Some (i + 2, D \<union> url_value_hosts nl (tokens ! (i + 1)))"
proof -
  have "DOMAIN_RE_findall t = []" "direct_url nl t D = D"
    using assms(1) generic_of_flag [of t] direct_url_flag [of t] by auto
  moreover have "header_flag tokens t (i + 1, D') = Some (i + 1, D')"
    "host_list_flag ''--resolve'' tokens t (i + 1, D') = Some (i + 1, D')"
    "host_list_flag ''--connect-to'' tokens t (i + 1, D') = Some (i + 1, D')" for D'
    using flags_disjoint(1) [OF assms(1)] by (simp_all add: header_flag_idle host_list_flag_idle)
  ultimately show ?thesis
    using assms by (simp add: scan_token_def url_flag_fires)
qed

lemma scan_token_header_flag:
  assumes "t \<in> header_flags" "i + 1 < length tokens" "tokens ! i = t"
  shows "scan_token nl tokens i D = Some (i + 2, D \<union> header_value_hosts (tokens ! (i + 1)))"
proof -
  have "DOMAIN_RE_findall t = []" "direct_url nl t D = D"
    using assms(1) generic_of_flag [of t] direct_url_flag [of t] by auto
  moreover have "url_flag nl tokens t (i, D) = (i, D)"
    "host_list_flag ''--resolve'' tokens t (i + 1, D') = Some (i + 1, D')"
    "host_list_flag ''--connect-to'' tokens t (i + 1, D') = Some (i + 1, D')" for D'
    using flags_disjoint(2) [OF assms(1)] by (simp_all add: url_flag_idle host_list_flag_idle)
  ultimately show ?thesis
    using assms by (simp add: scan_token_def header_flag_fires)
qed

lemma scan_token_host_list_flag:
  assumes "t \<in> host_list_flags" "i + 1 < length tokens" "tokens ! i = t"
  shows "scan_token nl tokens i D = Some (i + 2, D \<union> host_list_value_hosts (tokens ! (i + 1)))"
proof -
  have e: "DOMAIN_RE_findall t = []" "direct_url nl t D = D"
    using assms(1) generic_of_flag [of t] direct_url_flag [of t] by auto
  have idle: "url_flag nl tokens t (i, D) = (i, D)" "header_flag tokens t (i, D) = Some (i, D)"
    using flags_disjoint(3) [OF assms(1)] by (simp_all add: url_flag_idle header_flag_idle)
  consider "t = ''--resolve''" | "t = ''--connect-to''"
    using assms(1) by (auto simp: host_list_flags_def)
  then show ?thesis
  proof cases
    case 1
    then have "host_list_flag ''--connect-to'' tokens t (i + 1, D') = Some (i + 1, D')" for D'
      by (simp add: host_list_flag_idle)
    then show ?thesis
      using assms(2,3) e idle 1 host_list_flag_fires [of i tokens "''--resolve''" D]
      by (simp add: scan_token_def)
  next
    case 2
    then have "host_list_flag ''--resolve'' tokens t (i, D) = Some (i, D)"
      by (simp add: host_list_flag_idle)
    then show ?thesis
      using assms(2,3) e idle 2 host_list_flag_fires [of i tokens "''--connect-to''" D]
      by (simp add: scan_token_def)
  qed
qed

lemma scan_token_flag:
  assumes "t \<in> url_flags \<union> header_flags \<union> host_list_flags" "i + 1 < length tokens"
    "tokens ! i = t"
  shows "scan_token nl tokens i D = Some (i + 2, D \<union> value_hosts nl t (tokens ! (i + 1)))"
proof -
  consider "t \<in> url_flags" | "t \<in> header_flags" | "t \<in> host_list_flags"
    using assms(1) by auto
  then show ?thesis
  proof cases
    case 1
    then show ?thesis
      using scan_token_url_flag [OF 1 assms(2,3)] by (simp add: value_hosts_def)
  next
    case 2
    then show ?thesis
      using scan_token_header_flag [OF 2 assms(2,3)] flags_disjoint(2) [OF 2]
      by (simp add: value_hosts_def)
  next
    case 3
    then show ?thesis
      using scan_token_host_list_flag [OF 3 assms(2,3)] flags_disjoint(3) [OF 3]
      by (simp add: value_hosts_def)
  qed
qed

lemma scan_token_plain:
  assumes "\<not> (t \<in> url_flags \<union> header_flags \<union> host_list_flags \<and> i + 1 < length tokens)"
    "tokens ! i = t"
  shows "scan_token nl tokens i D = Some (i + 1, D \<union> direct_hosts nl t \<union> generic_hosts t)"
proof -
  have "url_flag nl tokens t (i, D') = (i, D')" "header_flag tokens t (i, D') = Some (i, D')"
    "host_list_flag ''--resolve'' tokens t (i, D') = Some (i, D')"
    "host_list_flag ''--connect-to'' tokens t (i, D') = Some (i, D')" for D'
    using assms(1)
    by (auto simp: url_flag_idle header_flag_idle host_list_flag_idle host_list_flags_def)
  then show ?thesis
    using assms(2)
    by (simp add: scan_token_def Let_def direct_url_eq add_hosts_eq generic_hosts_def)
qed

lemma token_loop_scan_hosts:
  "token_loop nl tokens i D = Some (D \<union> scan_hosts nl (drop i tokens))"
proof (induction nl tokens i D rule: token_loop.induct)
  case (1 nl tokens i D)
  show ?case
  proof (cases "i < length tokens")
    case False
    then show ?thesis
      by (simp add: token_loop.simps [of nl tokens i D])
  next
    case True
    define t where "t = tokens ! i"
    show ?thesis
    proof (cases "t \<in> url_flags \<union> header_flags \<union> host_list_flags \<and> i + 1 < length tokens")
      case flag: True
      then have st: "scan_token nl tokens i D = Some (i + 2, D \<union> value_hosts nl t (tokens ! (i + 1)))"
        by (intro scan_token_flag) (simp_all add: t_def)
      have dr: "drop i tokens = t # tokens ! (i + 1) # drop (i + 2) tokens"
        using flag True by (simp add: t_def Cons_nth_drop_Suc)
      have e: "direct_hosts nl t = {}" "generic_hosts t = {}"
        using flag generic_of_flag [of t] direct_of_flag [of t]
        by (simp_all add: direct_hosts_def generic_hosts_def)
      have "token_loop nl tokens i D =
              token_loop nl tokens (i + 2) (D \<union> value_hosts nl t (tokens ! (i + 1)))"
        using True st by (simp add: token_loop.simps [of nl tokens i D])
      also have "\<dots> = Some (D \<union> value_hosts nl t (tokens ! (i + 1)) \<union> scan_hosts nl (drop (i + 2) tokens))"
        using "1.IH" [OF True st refl] by simp
      finally show ?thesis
        using flag by (simp add: dr e Un_assoc)
    next
      case plain: False
      then have st: "scan_token nl tokens i D = Some (i + 1, D \<union> direct_hosts nl t \<union> generic_hosts t)"
        by (intro scan_token_plain) (simp_all add: t_def)
      have "token_loop nl tokens i D =
              token_loop nl tokens (i + 1) (D \<union> direct_hosts nl t \<union> generic_hosts t)"
        using True st by (simp add: token_loop.simps [of nl tokens i D])
      also have "\<dots> = Some (D \<union> direct_hosts nl t \<union> generic_hosts t \<union> scan_hosts nl (drop (i + 1) tokens))"
        using "1.IH" [OF True st refl] by simp
      finally have tl: "token_loop nl tokens i D =
          Some (D \<union> direct_hosts nl t \<union> generic_hosts t \<union> scan_hosts nl (drop (i + 1) tokens))" .
      show ?thesis
      proof (cases "i + 1 < length tokens")
        case True
        then have dr: "drop i tokens = t # drop (i + 1) tokens"
          and dr1: "drop (i + 1) tokens = tokens ! (i + 1) # drop (i + 2) tokens"
          using \<open>i < length tokens\<close> by (simp_all add: t_def Cons_nth_drop_Suc)
        have "scan_hosts nl (drop i tokens) =
                direct_hosts nl t \<union> generic_hosts t \<union> scan_hosts nl (drop (i + 1) tokens)"
          using plain True unfolding dr unfolding dr1 by simp
        then show ?thesis
          by (simp add: tl Un_assoc)
      next
        case False
        then have "drop i tokens = [t]" "drop (i + 1) tokens = []"
          using True by (simp_all add: t_def Cons_nth_drop_Suc [symmetric])
        then show ?thesis
          by (simp add: tl Un_assoc)
      qed
    qed
  qed
qed

lemma token_extract_domains_eq: "token_extract_domains nl tokens = Some (scan_hosts nl tokens)"
  by (simp add: token_extract_domains_def token_loop_scan_hosts)




text \<open>
  Claim C4, as amended. When the token at the scan index is one of \<^verbatim>\<open>--url\<close>, \<^verbatim>\<open>--url*\<close>,
  \<^verbatim>\<open>-I\<close>, \<^verbatim>\<open>--head\<close> and a next token exists, the pass over that token always moves the
  index by two, so the next token is consumed whether or not it is a URL; the normalized
  network location of the next token is added exactly when that token starts with
  \<^verbatim>\<open>http://\<close> or \<^verbatim>\<open>https://\<close> and \<^verbatim>\<open>urlparse\<close> does not raise. Here \<open>norm\<close> is the result of
  \<^verbatim>\<open>normalize_host\<close> (lemma \<open>normalize_host_norm\<close>).
\<close>

theorem C4_url_flag_skips_next_token:
  assumes "tokens ! i \<in> {''--url'', ''--url*'', ''-I'', ''--head''}" and "i + 1 < length tokens"
  shows "scan_token nl tokens i D =
           Some (i + 2,
                 D \<union> (if is_http_url (tokens ! (i + 1))
                       then (case nl (tokens ! (i + 1)) of None \<Rightarrow> {} | Some n \<Rightarrow> {norm n})
                       else {})) \<and>
         token_loop nl tokens i D =
           token_loop nl tokens (i + 2)
             (D \<union> (if is_http_url (tokens ! (i + 1))
                   then (case nl (tokens ! (i + 1)) of None \<Rightarrow> {} | Some n \<Rightarrow> {norm n})
                   else {}))"
proof -
  have "tokens ! i \<in> url_flags"
    using assms(1) by (simp add: url_flags_def)
  then have st: "scan_token nl tokens i D =
      Some (i + 2, D \<union> url_value_hosts nl (tokens ! (i + 1)))"
    using assms(2) by (intro scan_token_url_flag) simp_all
  moreover have "i < length tokens"
    using assms(2) by simp
  ultimately show ?thesis
    by (simp add: token_loop.simps [of nl tokens i D] url_value_hosts_def)
qed

theorem C4_url_flag_skips_next_token_witness:
  "[''curl'', ''--url'', ''https://Example.com/a'', ''b.org''] ! 1 \<in>
     {''--url'', ''--url*'', ''-I'', ''--head''} \<and>
   1 + 1 < length [''curl'', ''--url'', ''https://Example.com/a'', ''b.org''] \<and>
   scan_token netloc_between_slashes [''curl'', ''--url'', ''https://Example.com/a'', ''b.org''] 1 {} =
     Some (3, {''example.com''}) \<and>
   scan_token netloc_between_slashes [''curl'', ''-I'', ''example.com'', ''b.org''] 1 {} =
     Some (3, {})"
proof -
  have n: "netloc_between_slashes ''https://Example.com/a'' = Some ''Example.com''"
    "is_http_url ''https://Example.com/a''" "\<not> is_http_url ''example.com''"
    "norm ''Example.com'' = ''example.com''"
    by code_simp+
  have "scan_token netloc_between_slashes
          [''curl'', ''--url'', ''https://Example.com/a'', ''b.org''] 1 {} =
          Some (3, {''example.com''}) \<and>
        scan_token netloc_between_slashes [''curl'', ''-I'', ''example.com'', ''b.org''] 1 {} =
          Some (3, {})"
    using C4_url_flag_skips_next_token
        [of "[''curl'', ''--url'', ''https://Example.com/a'', ''b.org'']" 1 netloc_between_slashes "{}"]
      C4_url_flag_skips_next_token
        [of "[''curl'', ''-I'', ''example.com'', ''b.org'']" 1 netloc_between_slashes "{}"]
    by (simp add: n)
  then show ?thesis
    by simp
qed

text \<open>
  Claim C4 as stated fails: a next token that is not a URL is consumed too, so the
  generic rule never sees it, while the same token on its own is found.
\<close>

theorem C4_unconsumed_value_counterexample:
  "token_extract_domains netloc_between_slashes [''-I'', ''example.com''] = Some {} \<and>
   token_extract_domains netloc_between_slashes [''example.com''] = Some {''example.com''}"
  by code_simp

lemma scan_hosts_flag_head:
  "t \<in> url_flags \<union> header_flags \<union> host_list_flags \<Longrightarrow>
   scan_hosts nl (t # v # rest) = value_hosts nl t v \<union> scan_hosts nl rest"
  using generic_of_flag [of t] direct_of_flag [of t]
  by (simp add: direct_hosts_def generic_hosts_def)

lemma value_hosts_header: "t \<in> header_flags \<Longrightarrow> value_hosts nl t v = header_value_hosts v"
  using flags_disjoint(2) [of t] by (simp add: value_hosts_def)

lemma value_hosts_host_list: "t \<in> host_list_flags \<Longrightarrow> value_hosts nl t v = host_list_value_hosts v"
  using flags_disjoint(3) [of t] by (simp add: value_hosts_def)

lemma value_hosts_of_value_flag:
  assumes "t \<in> {''-H'', ''--header'', ''--resolve'', ''--connect-to''}"
  shows "t \<in> url_flags \<union> header_flags \<union> host_list_flags \<and> value_hosts nl t v =
      (if t \<in> {''-H'', ''--header''} then header_value_hosts v
       else host_list_value_hosts v)"
proof (cases "t \<in> {''-H'', ''--header''}")
  case True
  then have "t \<in> header_flags"
    by (simp add: header_flags_def)
  then show ?thesis
    using True by (simp add: value_hosts_header)
next
  case False
  with assms have "t \<in> host_list_flags"
    by (simp add: host_list_flags_def)
  then show ?thesis
    using False by (simp add: value_hosts_host_list)
qed

text \<open>
  Claim C5. When the token at the scan index is a header flag (\<^verbatim>\<open>-H\<close>, \<^verbatim>\<open>--header\<close>) or a
  resolve or connect-to flag and a next token exists, the pass over the flag moves the
  index by two and adds the hosts of the flag's own rule only, so the value token is not
  scanned again by the generic rule. For the tokens \<^verbatim>\<open>curl --resolve
  example.org:443:93.184.216.34\<close> the candidates are \<^verbatim>\<open>example.org\<close> alone, which the TLD
  set \<^verbatim>\<open>{org}\<close> keeps; the IP literal, which the generic rule would match in the value
  token, is not among them.
\<close>

theorem C5_value_token_not_rescanned:
  assumes "tokens ! i \<in> {''-H'', ''--header'', ''--resolve'', ''--connect-to''}"
    and "i + 1 < length tokens"
  shows "scan_token nl tokens i D =
           Some (i + 2,
                 D \<union> (if tokens ! i \<in> {''-H'', ''--header''}
                       then header_value_hosts (tokens ! (i + 1))
                       else host_list_value_hosts (tokens ! (i + 1)))) \<and>
         token_extract_domains nl [''curl'', ''--resolve'', ''example.org:443:93.184.216.34''] =
           Some {''example.org''} \<and>
         filter_by_tlds idna {''example.org''} {''org''} = Some {''example.org''} \<and>
         ''93.184.216.34'' \<in> generic_hosts ''example.org:443:93.184.216.34''"
proof -
  have "scan_token nl tokens i D =
          Some (i + 2, D \<union> value_hosts nl (tokens ! i) (tokens ! (i + 1)))"
    using value_hosts_of_value_flag [OF assms(1)] assms(2) by (intro scan_token_flag) simp_all
  then have step: "scan_token nl tokens i D =
           Some (i + 2,
                 D \<union> (if tokens ! i \<in> {''-H'', ''--header''}
                       then header_value_hosts (tokens ! (i + 1))
                       else host_list_value_hosts (tokens ! (i + 1))))"
    using value_hosts_of_value_flag [OF assms(1), of nl "tokens ! (i + 1)"] by simp
  have c: "DOMAIN_RE_findall ''curl'' = []" "\<not> is_http_url ''curl''"
    "host_list_value_hosts ''example.org:443:93.184.216.34'' = {''example.org''}"
    "''curl'' \<notin> url_flags \<union> header_flags \<union> host_list_flags"
    "''--resolve'' \<in> host_list_flags" "''--resolve'' \<notin> url_flags \<union> header_flags"
    by code_simp+
  have "scan_hosts nl [''curl'', ''--resolve'', ''example.org:443:93.184.216.34''] =
          direct_hosts nl ''curl'' \<union> generic_hosts ''curl'' \<union>
          scan_hosts nl [''--resolve'', ''example.org:443:93.184.216.34'']"
    by (simp only: scan_hosts.simps c(4) if_False)
  also have "scan_hosts nl [''--resolve'', ''example.org:443:93.184.216.34''] =
          value_hosts nl ''--resolve'' ''example.org:443:93.184.216.34'' \<union> scan_hosts nl []"
    using c(5) by (intro scan_hosts_flag_head) simp
  also have "value_hosts nl ''--resolve'' ''example.org:443:93.184.216.34'' = {''example.org''}"
    using c(5,6) by (simp add: value_hosts_def c(3))
  finally have "scan_hosts nl [''curl'', ''--resolve'', ''example.org:443:93.184.216.34''] =
          {''example.org''}"
    using c(1,2) by (simp add: direct_hosts_def generic_hosts_def)
  then have ex: "token_extract_domains nl [''curl'', ''--resolve'', ''example.org:443:93.184.216.34''] =
           Some {''example.org''}"
    by (simp add: token_extract_domains_eq)
  have l: "py_lower (last_label ''example.org'') = ''org''"
    by code_simp
  have f: "filter_by_tlds idna {''example.org''} {''org''} = Some {''example.org''}"
    by (auto simp: filter_by_tlds_eq l)
  have g: "''93.184.216.34'' \<in> generic_hosts ''example.org:443:93.184.216.34''"
    by code_simp
  show ?thesis
  proof (intro conjI)
    show "scan_token nl tokens i D =
           Some (i + 2,
                 D \<union> (if tokens ! i \<in> {''-H'', ''--header''}
                       then header_value_hosts (tokens ! (i + 1))
                       else host_list_value_hosts (tokens ! (i + 1))))"
      by (fact step)
    show "token_extract_domains nl [''curl'', ''--resolve'', ''example.org:443:93.184.216.34''] =
           Some {''example.org''}"
      by (fact ex)
    show "filter_by_tlds idna {''example.org''} {''org''} = Some {''example.org''}"
      by (fact f)
    show "''93.184.216.34'' \<in> generic_hosts ''example.org:443:93.184.216.34''"
      by (fact g)
  qed
qed

theorem C5_value_token_not_rescanned_witness:
  "[''curl'', ''--resolve'', ''example.org:443:93.184.216.34'', ''-H'', ''Accept: a.example.net''] ! 1 \<in>
     {''-H'', ''--header'', ''--resolve'', ''--connect-to''} \<and>
   1 + 1 < length
     [''curl'', ''--resolve'', ''example.org:443:93.184.216.34'', ''-H'', ''Accept: a.example.net''] \<and>
   scan_token netloc_between_slashes
     [''curl'', ''--resolve'', ''example.org:443:93.184.216.34'', ''-H'', ''Accept: a.example.net''] 1 {} =
     Some (3, {''example.org''}) \<and>
   scan_token netloc_between_slashes
     [''curl'', ''--resolve'', ''example.org:443:93.184.216.34'', ''-H'', ''Accept: a.example.net''] 3 {} =
     Some (5, {''a.example.net''})"
proof -
  have v: "host_list_value_hosts ''example.org:443:93.184.216.34'' = {''example.org''}"
    "header_value_hosts ''Accept: a.example.net'' = {''a.example.net''}"
    by code_simp+
  have "scan_token netloc_between_slashes
     [''curl'', ''--resolve'', ''example.org:443:93.184.216.34'', ''-H'', ''Accept: a.example.net''] 1 {} =
     Some (3, {''example.org''}) \<and>
   scan_token netloc_between_slashes
     [''curl'', ''--resolve'', ''example.org:443:93.184.216.34'', ''-H'', ''Accept: a.example.net''] 3 {} =
     Some (5, {''a.example.net''})"
    using C5_value_token_not_rescanned
        [of "[''curl'', ''--resolve'', ''example.org:443:93.184.216.34'', ''-H'', ''Accept: a.example.net'']"
          1 netloc_between_slashes "{}"]
      C5_value_token_not_rescanned
        [of "[''curl'', ''--resolve'', ''example.org:443:93.184.216.34'', ''-H'', ''Accept: a.example.net'']"
          3 netloc_between_slashes "{}"]
    by (simp add: v)
  then show ?thesis
    by simp
qed










section \<open>Properties of the pattern synthesizer\<close>

lemma py_split_absent: "sep \<notin> set s \<Longrightarrow> py_split sep n s = [s]"
  by (cases n) simp_all

lemma split_at_first:
  "sep \<in> set s \<Longrightarrow>
   s = takeWhile (\<lambda>x. x \<noteq> sep) s @ sep # tl (dropWhile (\<lambda>x. x \<noteq> sep) s)"
proof -
  assume "sep \<in> set s"
  then have ne: "dropWhile (\<lambda>x. x \<noteq> sep) s \<noteq> []"
    by simp
  then have "hd (dropWhile (\<lambda>x. x \<noteq> sep) s) = sep"
    using hd_dropWhile [of "\<lambda>x. x \<noteq> sep" s] by simp
  with ne have "dropWhile (\<lambda>x. x \<noteq> sep) s = sep # tl (dropWhile (\<lambda>x. x \<noteq> sep) s)"
    by (cases "dropWhile (\<lambda>x. x \<noteq> sep) s") auto
  then show ?thesis
    using takeWhile_dropWhile_id [of "\<lambda>x. x \<noteq> sep" s] by simp
qed

lemma before_last_sep_step:
  assumes "sep \<notin> set a"
  shows "before_last_sep sep (a @ sep # b) = (if sep \<in> set b then before_last_sep sep b else a)"
proof -
  have d: "dropWhile (\<lambda>x. x \<noteq> sep) (rev b @ sep # rev a) =
           dropWhile (\<lambda>x. x \<noteq> sep) (rev b) @ sep # rev a"
    by (simp add: dropWhile_append3)
  have r: "rev (a @ sep # b) = rev b @ sep # rev a"
    by simp
  have u: "before_last_sep sep (a @ sep # b) =
      rev (takeWhile (\<lambda>x. x \<noteq> sep) (tl (dropWhile (\<lambda>x. x \<noteq> sep) (rev b) @ sep # rev a)))"
    unfolding before_last_sep_def r d ..
  show ?thesis
  proof (cases "sep \<in> set b")
    case False
    then have e: "dropWhile (\<lambda>x. x \<noteq> sep) (rev b) = []"
      by auto
    have t: "takeWhile (\<lambda>x. x \<noteq> sep) (rev a) = rev a"
      using assms by (intro takeWhile_absent) simp
    show ?thesis
      unfolding u e using False by (simp add: t)
  next
    case True
    then have "dropWhile (\<lambda>x. x \<noteq> sep) (rev b) \<noteq> []"
      by simp
    then have "tl (dropWhile (\<lambda>x. x \<noteq> sep) (rev b) @ sep # rev a) =
               tl (dropWhile (\<lambda>x. x \<noteq> sep) (rev b)) @ sep # rev a"
      by simp
    then show ?thesis
      unfolding u using True by (simp add: before_last_sep_def takeWhile_tail)
  qed
qed

lemma py_split_second_last:
  "length s \<le> n \<Longrightarrow> sep \<in> set s \<Longrightarrow>
   2 \<le> length (py_split sep n s) \<and>
   py_split sep n s ! (length (py_split sep n s) - 2) = before_last_sep sep s"
proof (induction n arbitrary: s)
  case 0
  then show ?case by simp
next
  case (Suc m)
  define a where "a = takeWhile (\<lambda>x. x \<noteq> sep) s"
  define b where "b = tl (dropWhile (\<lambda>x. x \<noteq> sep) s)"
  define qs where "qs = py_split sep m b"
  have s: "s = a @ sep # b"
    unfolding a_def b_def using Suc.prems(2) by (rule split_at_first)
  have a: "sep \<notin> set a"
    unfolding a_def by (auto dest: set_takeWhileD)
  have len: "length b \<le> m"
    using Suc.prems(1) by (subst (asm) s) simp
  have ps: "py_split sep (Suc m) s = a # qs"
    using Suc.prems(2) by (simp add: a_def b_def qs_def)
  have bl: "before_last_sep sep s = (if sep \<in> set b then before_last_sep sep b else a)"
    by (subst s) (rule before_last_sep_step [OF a])
  show ?case
  proof (cases "sep \<in> set b")
    case False
    then have "qs = [b]"
      unfolding qs_def by (rule py_split_absent)
    then show ?thesis
      unfolding ps bl using False by simp
  next
    case True
    from Suc.IH [OF len True] have l2: "2 \<le> length qs"
      and nth: "qs ! (length qs - 2) = before_last_sep sep b"
      unfolding qs_def by blast+
    have "length (a # qs) - 2 = Suc (length qs - 2)"
      using l2 by simp
    then have "(a # qs) ! (length (a # qs) - 2) = before_last_sep sep b"
      using nth by (simp only: nth_Cons_Suc)
    moreover have "2 \<le> length (a # qs)"
      using l2 by simp
    ultimately show ?thesis
      unfolding ps bl using True by (simp only: if_True) 
  qed
qed

lemma py_index_second_last: "2 \<le> length xs \<Longrightarrow> py_index xs (- 2) = Some (xs ! (length xs - 2))"
  by (simp add: py_index_def nat_diff_distrib')

lemma wildcard_label_eq: "wildcard_label d = Some (registrable_label d)"
proof (cases "CHR ''.'' \<in> set d")
  case True
  then show ?thesis
    using py_split_second_last [of d "length d" "CHR ''.''"]
    by (simp add: wildcard_label_def py_split_all_def registrable_label_def Let_def
        py_index_second_last second_last_label_def before_last_sep_def)
next
  case False
  then show ?thesis
    by (simp add: wildcard_label_def py_split_all_def registrable_label_def
        py_split_absent py_index_def)
qed

lemma suggest_wildcards_eq:
  "suggest_wildcards domains =
     Some (sorted_list_of_set ((\<lambda>d. registrable_label d @ ''.*'') ` domains))"
proof -
  have "wildcard_label ` domains = Some ` (registrable_label ` domains)"
    by (simp add: wildcard_label_eq image_image)
  then have "Option.these (wildcard_label ` domains) = registrable_label ` domains"
    by (simp only: these_image_Some_eq)
  then show ?thesis
    by (simp add: suggest_wildcards_def wildcard_label_eq image_image)
qed

text \<open>
  Claim C9. For every (finite) set of domains, \<^verbatim>\<open>suggest_wildcards\<close> returns a list that is
  sorted ascending, has no duplicates, and consists of the strings \<^verbatim>\<open><label>.*\<close>, where
  the label of a domain with two or more labels (one that contains a dot) is its
  second-to-last label and the label of a single-label domain is the whole string. For
  the set of \<^verbatim>\<open>login.example.com\<close> and \<^verbatim>\<open>shop.example.com\<close> the result is the one-element list
  \<^verbatim>\<open>example.*\<close>.
\<close>

theorem C9_suggest_wildcards:
  assumes "finite domains"
  shows "\<exists>ws. suggest_wildcards domains = Some ws \<and> sorted ws \<and> distinct ws \<and>
           set ws = (\<lambda>d. (if CHR ''.'' \<in> set d then second_last_label d else d) @ ''.*'') ` domains \<and>
           suggest_wildcards {''login.example.com'', ''shop.example.com''} = Some [''example.*'']"
proof -
  define ws where "ws = sorted_list_of_set ((\<lambda>d. registrable_label d @ ''.*'') ` domains)"
  have 1: "suggest_wildcards domains = Some ws"
    by (simp add: suggest_wildcards_eq ws_def)
  have 2: "sorted ws" "distinct ws"
    by (simp_all add: ws_def)
  have "set ws = (\<lambda>d. registrable_label d @ ''.*'') ` domains"
    using assms by (simp add: ws_def)
  then have 3: "set ws =
      (\<lambda>d. (if CHR ''.'' \<in> set d then second_last_label d else d) @ ''.*'') ` domains"
    by (simp add: registrable_label_def)
  have 4: "suggest_wildcards {''login.example.com'', ''shop.example.com''} = Some [''example.*'']"
    by code_simp
  from 1 2 3 4 show ?thesis
    by (intro exI [of _ ws] conjI)
qed

theorem C9_suggest_wildcards_witness:
  "finite {''login.example.com'', ''shop.example.com'', ''localhost'', ''a.b.c.org''} \<and>
   suggest_wildcards {''login.example.com'', ''shop.example.com'', ''localhost'', ''a.b.c.org''} =
     Some [''c.*'', ''example.*'', ''localhost.*''] \<and>
   sorted [''c.*'', ''example.*'', ''localhost.*'']"
proof -
  have f: "finite {''login.example.com'', ''shop.example.com'', ''localhost'', ''a.b.c.org''}"
    by simp
  have ev: "suggest_wildcards {''login.example.com'', ''shop.example.com'', ''localhost'', ''a.b.c.org''} =
     Some [''c.*'', ''example.*'', ''localhost.*'']"
    by code_simp
  obtain ws where "suggest_wildcards
      {''login.example.com'', ''shop.example.com'', ''localhost'', ''a.b.c.org''} = Some ws"
    and "sorted ws"
    using C9_suggest_wildcards [OF f] by blast
  with ev have "sorted [''c.*'', ''example.*'', ''localhost.*'']"
    by simp
  with f ev show ?thesis
    by simp
qed

section \<open>Properties of the command line\<close>

lemma read_command_empty:
  "read_command a w = [] \<longleftrightarrow> \<not> truthy (cmd a) \<and> py_strip_ws (stdin w) = []"
  by (cases "cmd a") (auto simp: read_command_def truthy_def)

lemma report_not_usage:
  "report a w filtered \<noteq> Exit 1 [''Provide a curl command via --cmd or stdin. See --help.'']"
proof (cases "show_all a \<or> \<not> (wildcards a \<or> regexes a)")
  case True
  then show ?thesis
    by (auto simp: report_def domains_block_def Let_def split: option.splits)
next
  case False
  then show ?thesis
    by (auto simp: report_def Let_def split: option.splits)
qed

text \<open>
  The run ends with status 1 after printing only the hint to provide a command exactly
  when no non-empty \<^verbatim>\<open>--cmd\<close> argument is given and standard input is empty after
  trimming: what is read from standard input is trimmed, a \<^verbatim>\<open>--cmd\<close> argument is not.
\<close>

lemma usage_exit_iff:
  "(main a w = Exit 1 [''Provide a curl command via --cmd or stdin. See --help.'']) =
     (\<not> truthy (cmd a) \<and> py_strip_ws (stdin w) = [])"
proof (cases "read_command a w = []")
  case True
  then have "main a w = Exit 1 [''Provide a curl command via --cmd or stdin. See --help.'']"
    by (simp add: main_def)
  then show ?thesis
    using True by (simp add: read_command_empty)
next
  case False
  then have "main a w \<noteq> Exit 1 [''Provide a curl command via --cmd or stdin. See --help.'']"
    using report_not_usage [of a w]
    by (auto simp: main_def Let_def split: option.splits)
  then show ?thesis
    using False by (simp add: read_command_empty)
qed

lemma usage_exit_on_blank_stdin:
  "\<not> truthy (cmd (example_args None)) \<and>
   py_strip_ws (stdin (example_world [CHR 0x20, CHR 0x0A])) = [] \<and>
   main (example_args None) (example_world [CHR 0x20, CHR 0x0A]) =
     Exit 1 [''Provide a curl command via --cmd or stdin. See --help.''] \<and>
   main (example_args (Some ''curl https://Login.Example.com'')) (example_world []) =
     Exit 0 [''# Matched domains (TLD filtered):'', ''login.example.com'']"
proof -
  have h: "\<not> truthy (cmd (example_args None))"
    "py_strip_ws (stdin (example_world [CHR 0x20, CHR 0x0A])) = []"
    by code_simp+
  have m: "main (example_args (Some ''curl https://Login.Example.com'')) (example_world []) =
     Exit 0 [''# Matched domains (TLD filtered):'', ''login.example.com'']"
    by code_simp
  show ?thesis
    using h m usage_exit_iff [of "example_args None" "example_world [CHR 0x20, CHR 0x0A]"]
    by simp
qed

text \<open>
  Claim C6. A run whose command string is empty after trimming ends with status 1 and
  prints no domain output, whether the command comes from \<^verbatim>\<open>--cmd\<close> or from standard
  input. The code does this for standard input only. At the input \<^verbatim>\<open>--cmd "   "\<close> with
  the TLD file of the examples, the command is empty after trimming, but the run goes
  on with no tokens, prints the header of the matched domains and the line for an
  empty result, and ends with status 0.
\<close>

theorem C6_blank_cmd_argument_not_rejected:
  "py_strip_ws (the (cmd (example_args (Some ''   '')))) = [] \<and>
   main (example_args (Some ''   '')) (example_world []) =
     Exit 0 [''# Matched domains (TLD filtered):'', ''# (none)'']"
  by code_simp

end
